theory Spec2Isabelle
  imports Main "HOL-Library.Word" "HOL-Library.Sublist"
begin

unbundle bit_operations_syntax

section \<open>The environment of the program\<close>

text \<open>
  The program (main.go) walks a directory tree twice with \<^verbatim>\<open>filepath.Walk\<close>, opens every
  regular file of exactly \<^verbatim>\<open>fileSize\<close> bytes with \<^verbatim>\<open>debug/macho\<close>, hashes the sections
  \<^verbatim>\<open>__text\<close> and \<^verbatim>\<open>__cstring\<close> with SHA-256 and counts the digests in two global maps.
  The libraries are not part of the repository; what they return is a parameter of the model.
\<close>

type_synonym byte = "8 word"

text \<open>
  A section of a parsed Mach-O file. \<open>s_size\<close> is \<^verbatim>\<open>sec.Size\<close>. \<open>s_read\<close> is the outcome of
  \<^verbatim>\<open>sec.Open().Read(b)\<close>: \<open>None\<close> when the call returns an error, otherwise the bytes it
  copied to the front of \<^verbatim>\<open>b\<close>.
\<close>

record msection =
  s_name :: string
  s_size :: nat
  s_read :: "byte list option"

text \<open>The outcome of \<^verbatim>\<open>os.Open(path)\<close> followed by \<^verbatim>\<open>macho.NewFile(r)\<close>.\<close>

datatype opened =
    OpenError string
  | NotMachO
  | MachO "msection list"

text \<open>
  One call of a \<^verbatim>\<open>filepath.Walk\<close> callback: the path, whether \<^verbatim>\<open>err != nil\<close>, and (when
  there is no error) \<^verbatim>\<open>info.Mode().IsRegular()\<close> and \<^verbatim>\<open>info.Size()\<close>.
\<close>

record entry =
  e_path :: string
  e_err :: bool
  e_regular :: bool
  e_size :: int

text \<open>
  The command line after \<^verbatim>\<open>flag.Parse()\<close> (\<open>input\<close>, \<open>jobs\<close>), the sequence of callback
  calls each of the two walks makes as long as the callback returns nil, the files, and the
  hash function of \<^verbatim>\<open>crypto/sha256\<close>.
\<close>

record config =
  input :: string
  jobs :: int
  count_tree :: "entry list"
  scan_tree :: "entry list"
  files :: "string \<Rightarrow> opened"
  sha256_Sum :: "byte list \<Rightarrow> byte list"

section \<open>Data of the program\<close>

definition fileSize :: int where
  "fileSize = 172792"

text \<open>The only error value the callbacks of the program return.\<close>

datatype error = io_EOF

text \<open>
  What the program writes to standard output, one value per print statement or group of
  them. \<open>Report\<close> is one call of \<^verbatim>\<open>showResults\<close>, with the two maps as it printed them.
\<close>

datatype event =
    Banner
  | UsageError
  | CountingMsg
  | OpenErrorMsg string string
  | CtrlC
  | Report "string \<rightharpoonup> int" "string \<rightharpoonup> int"

text \<open>Where each goroutine stands. \<^verbatim>\<open>analyseBinary\<close> is cut at its three blocks.\<close>

datatype ab_pc =
    AB_Open string
  | AB_Text "msection list"
  | AB_Cstring "msection list"
  | AB_Ret

datatype main_pc = M_Setup | M_Check | M_Wait

datatype folder_pc =
    F_None
  | F_Count
  | F_Pool
  | F_Walk "entry list"
  | F_Send string "entry list"
  | F_Call string "entry list"
  | F_Inline ab_pc "entry list"
  | F_Walked "error option"
  | F_JobWait
  | F_Show
  | F_Done
  | F_Ret
  | F_Stopped

datatype worker_pc = W_Recv | W_Run ab_pc | W_Exit

datatype handler_pc = H_None | H_Wait | H_Set | H_JobWait | H_Show | H_Exit

text \<open>
  The global variables of main.go, the standard output, the exit status of the process once
  it has exited, and the position of every goroutine. \<open>tasks_closed\<close> is the state of the
  channel \<^verbatim>\<open>tasks\<close>; the channel is unbuffered, so it holds no other state. \<open>bar\<close> counts the
  calls of \<^verbatim>\<open>bar.Add(1)\<close>. \<open>invoked\<close> is a history variable that no step reads: the
  arguments of the calls of \<^verbatim>\<open>analyseBinary\<close> so far, in order.
\<close>

record state =
  totalWork :: int
  codeHashes :: "string \<rightharpoonup> int"
  cstringHashes :: "string \<rightharpoonup> int"
  interrupted :: bool
  jobGroup :: int
  mainGroup :: int
  tasks_closed :: bool
  bar :: int
  out :: "event list"
  exit_status :: "int option"
  main_thread :: main_pc
  folder :: folder_pc
  handler :: handler_pc
  workers :: "worker_pc list"
  invoked :: "string list"

section \<open>The sequential functions\<close>

text \<open>\<^verbatim>\<open>hex.EncodeToString\<close>: two lower-case hexadecimal digits per byte.\<close>

definition hextable :: string where
  "hextable = ''0123456789abcdef''"

fun EncodeToString :: "byte list \<Rightarrow> string" where
  "EncodeToString [] = []"
| "EncodeToString (v # src) =
     hextable ! unat (drop_bit 4 v) # hextable ! unat (v AND 15) # EncodeToString src"

definition get_sha256 :: "config \<Rightarrow> byte list \<Rightarrow> string" where
  "get_sha256 cfg buf = EncodeToString (sha256_Sum cfg buf)"

text \<open>\<^verbatim>\<open>machoFile.Section(name)\<close>: the first section of that name, or nil.\<close>

definition Section :: "msection list \<Rightarrow> string \<Rightarrow> msection option" where
  "Section f name = find (\<lambda>s. s_name s = name) f"

text \<open>
  \<^verbatim>\<open>b := make([]byte, sec.Size); r := sec.Open(); _, err := r.Read(b)\<close>: \<open>None\<close> when
  \<^verbatim>\<open>err != nil\<close>, otherwise the buffer \<^verbatim>\<open>b\<close>, of \<^verbatim>\<open>sec.Size\<close> bytes, zero where the call wrote
  nothing.
\<close>

definition Read :: "msection \<Rightarrow> byte list option" where
  "Read sec =
     (case s_read sec of
        None \<Rightarrow> None
      | Some bs \<Rightarrow> Some (take (s_size sec) bs @ replicate (s_size sec - length bs) 0))"

text \<open>\<^verbatim>\<open>m[hash]++\<close> on a Go map: a missing key reads as 0.\<close>

definition count_of :: "(string \<rightharpoonup> int) \<Rightarrow> string \<Rightarrow> int" where
  "count_of m k = (case m k of None \<Rightarrow> 0 | Some c \<Rightarrow> c)"

definition incr :: "(string \<rightharpoonup> int) \<Rightarrow> string \<Rightarrow> (string \<rightharpoonup> int)" where
  "incr m k = m(k \<mapsto> count_of m k + 1)"

text \<open>
  \<^verbatim>\<open>analyseBinary\<close> (lines 104 to 147), whole. The increments are made under \<^verbatim>\<open>mapMutex\<close>.
\<close>

definition analyseBinary :: "config \<Rightarrow> string \<Rightarrow> state \<Rightarrow> state" where
  "analyseBinary cfg path s =
     (case files cfg path of
        OpenError msg \<Rightarrow> s\<lparr>out := out s @ [OpenErrorMsg msg path]\<rparr>
      | NotMachO \<Rightarrow> s
      | MachO machoFile \<Rightarrow>
          (case (case Section machoFile ''__text'' of
                   None \<Rightarrow> Some s
                 | Some sec \<Rightarrow>
                     (case Read sec of
                        None \<Rightarrow> None
                      | Some b \<Rightarrow>
                          Some (s\<lparr>codeHashes := incr (codeHashes s) (get_sha256 cfg b)\<rparr>))) of
             None \<Rightarrow> s
           | Some s1 \<Rightarrow>
               (case Section machoFile ''__cstring'' of
                  None \<Rightarrow> s1
                | Some sec \<Rightarrow>
                    (case Read sec of
                       None \<Rightarrow> s1
                     | Some b \<Rightarrow>
                         s1\<lparr>cstringHashes :=
                              incr (cstringHashes s1) (get_sha256 cfg b)\<rparr>))))"

text \<open>
  The same function one block at a time, for the runs in which other goroutines take steps
  in between: opening and parsing, the \<^verbatim>\<open>__text\<close> block, the \<^verbatim>\<open>__cstring\<close> block.
\<close>

fun ab_step :: "config \<Rightarrow> ab_pc \<Rightarrow> state \<Rightarrow> ab_pc \<times> state" where
  "ab_step cfg (AB_Open path) s =
     (case files cfg path of
        OpenError msg \<Rightarrow> (AB_Ret, s\<lparr>out := out s @ [OpenErrorMsg msg path]\<rparr>)
      | NotMachO \<Rightarrow> (AB_Ret, s)
      | MachO machoFile \<Rightarrow> (AB_Text machoFile, s))"
| "ab_step cfg (AB_Text machoFile) s =
     (case Section machoFile ''__text'' of
        None \<Rightarrow> (AB_Cstring machoFile, s)
      | Some sec \<Rightarrow>
          (case Read sec of
             None \<Rightarrow> (AB_Ret, s)
           | Some b \<Rightarrow>
               (AB_Cstring machoFile,
                s\<lparr>codeHashes := incr (codeHashes s) (get_sha256 cfg b)\<rparr>)))"
| "ab_step cfg (AB_Cstring machoFile) s =
     (case Section machoFile ''__cstring'' of
        None \<Rightarrow> (AB_Ret, s)
      | Some sec \<Rightarrow>
          (case Read sec of
             None \<Rightarrow> (AB_Ret, s)
           | Some b \<Rightarrow>
               (AB_Ret, s\<lparr>cstringHashes := incr (cstringHashes s) (get_sha256 cfg b)\<rparr>)))"
| "ab_step cfg AB_Ret s = (AB_Ret, s)"

text \<open>Up to \<open>n\<close> blocks in a row, with no other goroutine in between.\<close>

fun ab_run :: "config \<Rightarrow> nat \<Rightarrow> ab_pc \<Rightarrow> state \<Rightarrow> ab_pc \<times> state" where
  "ab_run cfg 0 pc s = (pc, s)"
| "ab_run cfg (Suc n) pc s = (case ab_step cfg pc s of (pc', s') \<Rightarrow> ab_run cfg n pc' s')"

text \<open>\<^verbatim>\<open>showResults\<close>: prints both maps.\<close>

definition showResults :: "state \<Rightarrow> state" where
  "showResults s = s\<lparr>out := out s @ [Report (codeHashes s) (cstringHashes s)]\<rparr>"

text \<open>The candidate test of both walks (lines 158 and 194).\<close>

definition candidate :: "entry \<Rightarrow> bool" where
  "candidate e = (e_regular e \<and> e_size e = fileSize)"

text \<open>The callback of the counting walk (lines 154 to 162) and that walk.\<close>

definition count_cb :: "entry \<Rightarrow> int \<Rightarrow> int \<times> error option" where
  "count_cb e tw =
     (if e_err e then (tw, None)
      else if candidate e then (tw + 1, None)
      else (tw, None))"

fun Walk_count :: "entry list \<Rightarrow> int \<Rightarrow> int \<times> error option" where
  "Walk_count [] tw = (tw, None)"
| "Walk_count (e # es) tw =
     (case count_cb e tw of
        (tw', None) \<Rightarrow> Walk_count es tw'
      | (tw', Some err) \<Rightarrow> (tw', Some err))"

text \<open>
  The callback of the dispatch walk (lines 186 to 203), up to the point where it either
  returns, sends the path on \<^verbatim>\<open>tasks\<close> or calls \<^verbatim>\<open>analyseBinary\<close> itself; after a send or
  an inline call it returns nil.
\<close>

datatype cb_result = Return "error option" | Send string | Inline string

definition dispatch_cb :: "bool \<Rightarrow> int \<Rightarrow> entry \<Rightarrow> cb_result" where
  "dispatch_cb intr n e =
     (if e_err e then Return None
      else if intr then Return (Some io_EOF)
      else if candidate e then (if n > 1 then Send (e_path e) else Inline (e_path e))
      else Return None)"

section \<open>The goroutines, one step at a time\<close>

text \<open>
  A step of a goroutine is \<open>None\<close> when the goroutine is blocked, has returned or does not
  exist. A Go panic ends the process with status 2.
\<close>

definition panic :: "state \<Rightarrow> state" where
  "panic s = s\<lparr>exit_status := Some 2\<rparr>"

text \<open>\<^verbatim>\<open>close(tasks)\<close> panics on a closed channel; \<^verbatim>\<open>jobGroup.Done()\<close> panics below zero.\<close>

definition close_tasks :: "state \<Rightarrow> state" where
  "close_tasks s = (if tasks_closed s then panic s else s\<lparr>tasks_closed := True\<rparr>)"

definition jobGroup_Done :: "state \<Rightarrow> state" where
  "jobGroup_Done s = (if jobGroup s \<le> 0 then panic s else s\<lparr>jobGroup := jobGroup s - 1\<rparr>)"

text \<open>
  \<^verbatim>\<open>main\<close> (lines 241 to 267): \<^verbatim>\<open>setupCloseHandler\<close> starts the handler goroutine; then the
  banner and the check of \<^verbatim>\<open>input\<close>, which exits with 1 or starts \<^verbatim>\<open>analyseFolder\<close>; then
  \<^verbatim>\<open>mainGroup.Wait()\<close>, after which \<^verbatim>\<open>main\<close> returns and the process exits with 0.
\<close>

definition main_step :: "config \<Rightarrow> state \<Rightarrow> state option" where
  "main_step cfg s =
     (case main_thread s of
        M_Setup \<Rightarrow> Some (s\<lparr>handler := H_Wait, main_thread := M_Check\<rparr>)
      | M_Check \<Rightarrow>
          (if input cfg = []
           then Some (s\<lparr>out := out s @ [Banner, UsageError], exit_status := Some 1\<rparr>)
           else Some (s\<lparr>out := out s @ [Banner], mainGroup := mainGroup s + 1,
                        folder := F_Count, main_thread := M_Wait\<rparr>))
      | M_Wait \<Rightarrow>
          (if mainGroup s = 0 then Some (s\<lparr>exit_status := Some 0\<rparr>) else None))"

text \<open>
  The goroutine of \<^verbatim>\<open>setupCloseHandler\<close> (lines 86 to 93). Its step at \<open>H_Wait\<close> is the
  arrival of a signal on \<^verbatim>\<open>c\<close>. \<^verbatim>\<open>jobGroup.Wait()\<close> blocks until the counter is zero.
\<close>

definition handler_step :: "state \<Rightarrow> state option" where
  "handler_step s =
     (case handler s of
        H_None \<Rightarrow> None
      | H_Wait \<Rightarrow> Some (s\<lparr>out := out s @ [CtrlC], handler := H_Set\<rparr>)
      | H_Set \<Rightarrow> Some (s\<lparr>interrupted := True, handler := H_JobWait\<rparr>)
      | H_JobWait \<Rightarrow> (if jobGroup s = 0 then Some (s\<lparr>handler := H_Show\<rparr>) else None)
      | H_Show \<Rightarrow> Some ((showResults s)\<lparr>handler := H_Exit\<rparr>)
      | H_Exit \<Rightarrow> Some (s\<lparr>exit_status := Some 0\<rparr>))"

text \<open>
  \<^verbatim>\<open>analyseFolder\<close> (lines 149 to 227). Neither callback returns an error other than io.EOF,
  so the two \<^verbatim>\<open>Printf\<close> of a walk error are never reached. At \<open>F_Send\<close> the goroutine is
  blocked in \<^verbatim>\<open>tasks <- path\<close> until a worker receives; at \<open>F_Call\<close> it has passed the
  checks of the callback and is about to call \<^verbatim>\<open>analyseBinary\<close> itself.
\<close>

definition folder_step :: "config \<Rightarrow> state \<Rightarrow> state option" where
  "folder_step cfg s =
     (case folder s of
        F_None \<Rightarrow> None
      | F_Count \<Rightarrow>
          Some (s\<lparr>out := out s @ [CountingMsg],
                  totalWork := fst (Walk_count (count_tree cfg) (totalWork s)),
                  folder := F_Pool\<rparr>)
      | F_Pool \<Rightarrow>
          (if jobs cfg > 1
           then Some (s\<lparr>jobGroup := jobGroup s + jobs cfg,
                        workers := replicate (nat (jobs cfg)) W_Recv,
                        folder := F_Walk (scan_tree cfg)\<rparr>)
           else Some (s\<lparr>folder := F_Walk (scan_tree cfg)\<rparr>))
      | F_Walk [] \<Rightarrow> Some (s\<lparr>folder := F_Walked None\<rparr>)
      | F_Walk (e # es) \<Rightarrow>
          (case dispatch_cb (interrupted s) (jobs cfg) e of
             Return None \<Rightarrow> Some (s\<lparr>folder := F_Walk es\<rparr>)
           | Return (Some err) \<Rightarrow> Some (s\<lparr>folder := F_Walked (Some err)\<rparr>)
           | Send p \<Rightarrow> Some (s\<lparr>folder := F_Send p es\<rparr>)
           | Inline p \<Rightarrow> Some (s\<lparr>folder := F_Call p es\<rparr>))
      | F_Send p es \<Rightarrow> None
      | F_Call p es \<Rightarrow>
          Some (s\<lparr>folder := F_Inline (AB_Open p) es, invoked := invoked s @ [p]\<rparr>)
      | F_Inline AB_Ret es \<Rightarrow> Some (s\<lparr>bar := bar s + 1, folder := F_Walk es\<rparr>)
      | F_Inline pc es \<Rightarrow>
          (case ab_step cfg pc s of (pc', s') \<Rightarrow> Some (s'\<lparr>folder := F_Inline pc' es\<rparr>))
      | F_Walked (Some io_EOF) \<Rightarrow> Some ((close_tasks s)\<lparr>folder := F_Stopped\<rparr>)
      | F_Walked None \<Rightarrow>
          (if jobs cfg > 1 then Some ((close_tasks s)\<lparr>folder := F_JobWait\<rparr>)
           else Some (s\<lparr>folder := F_Show\<rparr>))
      | F_JobWait \<Rightarrow> (if jobGroup s = 0 then Some (s\<lparr>folder := F_Show\<rparr>) else None)
      | F_Show \<Rightarrow> Some ((showResults s)\<lparr>folder := F_Done\<rparr>)
      | F_Done \<Rightarrow> Some (s\<lparr>mainGroup := mainGroup s - 1, folder := F_Ret\<rparr>)
      | F_Ret \<Rightarrow> None
      | F_Stopped \<Rightarrow> None)"

text \<open>
  Worker \<open>i\<close> of the pool (lines 172 to 182). A receive on \<^verbatim>\<open>tasks\<close> takes the path of the
  blocked sender; on the closed channel it yields \<^verbatim>\<open>ok = false\<close> and the worker returns
  through its deferred \<^verbatim>\<open>jobGroup.Done()\<close>; otherwise the worker is blocked.
\<close>

definition worker_step :: "config \<Rightarrow> nat \<Rightarrow> state \<Rightarrow> state option" where
  "worker_step cfg i s =
     (if i < length (workers s) then
        (case workers s ! i of
           W_Recv \<Rightarrow>
             (case folder s of
                F_Send p es \<Rightarrow>
                  Some (s\<lparr>folder := F_Walk es,
                          workers := (workers s)[i := W_Run (AB_Open p)],
                          invoked := invoked s @ [p]\<rparr>)
              | _ \<Rightarrow>
                  (if tasks_closed s
                   then Some ((jobGroup_Done s)\<lparr>workers := (workers s)[i := W_Exit]\<rparr>)
                   else None))
         | W_Run AB_Ret \<Rightarrow>
             Some (s\<lparr>bar := bar s + 1, workers := (workers s)[i := W_Recv]\<rparr>)
         | W_Run pc \<Rightarrow>
             (case ab_step cfg pc s of
                (pc', s') \<Rightarrow> Some (s'\<lparr>workers := (workers s)[i := W_Run pc']\<rparr>))
         | W_Exit \<Rightarrow> None)
      else None)"

text \<open>
  The process: any goroutine that can take a step may take the next one, until the process
  has exited. A schedule is the list of the goroutines that take the steps, in order. The
  shared variables are read and written in the order of the steps: the increments of the
  maps are made under \<^verbatim>\<open>mapMutex\<close>, each with the read and the hash before it as one step;
  \<^verbatim>\<open>interrupted\<close> is read and written without a lock, and one call of \<^verbatim>\<open>showResults\<close> is
  taken as one step.
\<close>

datatype thread = TMain | TFolder | THandler | TWorker nat

definition step :: "config \<Rightarrow> thread \<Rightarrow> state \<Rightarrow> state option" where
  "step cfg t s =
     (if exit_status s \<noteq> None then None
      else (case t of
              TMain \<Rightarrow> main_step cfg s
            | TFolder \<Rightarrow> folder_step cfg s
            | THandler \<Rightarrow> handler_step s
            | TWorker i \<Rightarrow> worker_step cfg i s))"

definition init :: state where
  "init = \<lparr>totalWork = 0, codeHashes = Map.empty, cstringHashes = Map.empty,
           interrupted = False, jobGroup = 0, mainGroup = 0, tasks_closed = False,
           bar = 0, out = [], exit_status = None, main_thread = M_Setup,
           folder = F_None, handler = H_None, workers = [], invoked = []\<rparr>"

fun run :: "config \<Rightarrow> thread list \<Rightarrow> state \<Rightarrow> state option" where
  "run cfg [] s = Some s"
| "run cfg (t # ts) s = (case step cfg t s of None \<Rightarrow> None | Some s' \<Rightarrow> run cfg ts s')"

inductive reachable :: "config \<Rightarrow> state \<Rightarrow> bool" for cfg where
  reach_init: "reachable cfg init"
| reach_step: "reachable cfg s \<Longrightarrow> step cfg t s = Some s' \<Longrightarrow> reachable cfg s'"

section \<open>What a run is compared with\<close>

text \<open>
  The paths on which the dispatch walk schedules work when it is not stopped: the entries
  without a walk error that pass the candidate test, in the order of the walk.
\<close>

definition candidates :: "entry list \<Rightarrow> string list" where
  "candidates es = map e_path (filter (\<lambda>e. \<not> e_err e \<and> candidate e) es)"

text \<open>
  The digest of the region of each category that a call of \<^verbatim>\<open>analyseBinary\<close> reads
  successfully, if there is one. The \<^verbatim>\<open>__cstring\<close> section is only read when the
  \<^verbatim>\<open>__text\<close> block has not returned.
\<close>

definition text_digest :: "config \<Rightarrow> msection list \<Rightarrow> string option" where
  "text_digest cfg f =
     (case Section f ''__text'' of
        None \<Rightarrow> None
      | Some sec \<Rightarrow> map_option (get_sha256 cfg) (Read sec))"

definition text_fails :: "msection list \<Rightarrow> bool" where
  "text_fails f = (case Section f ''__text'' of None \<Rightarrow> False | Some sec \<Rightarrow> Read sec = None)"

definition cstring_digest :: "config \<Rightarrow> msection list \<Rightarrow> string option" where
  "cstring_digest cfg f =
     (case Section f ''__cstring'' of
        None \<Rightarrow> None
      | Some sec \<Rightarrow> map_option (get_sha256 cfg) (Read sec))"

definition file_text :: "config \<Rightarrow> string \<Rightarrow> string option" where
  "file_text cfg p = (case files cfg p of MachO f \<Rightarrow> text_digest cfg f | _ \<Rightarrow> None)"

definition file_cstring :: "config \<Rightarrow> string \<Rightarrow> string option" where
  "file_cstring cfg p =
     (case files cfg p of
        MachO f \<Rightarrow> (if text_fails f then None else cstring_digest cfg f)
      | _ \<Rightarrow> None)"

text \<open>How many of the files \<open>ps\<close> have a successfully read region with digest \<open>d\<close>.\<close>

definition regions_text :: "config \<Rightarrow> string list \<Rightarrow> string \<Rightarrow> nat" where
  "regions_text cfg ps d = length (filter (\<lambda>p. file_text cfg p = Some d) ps)"

definition regions_cstring :: "config \<Rightarrow> string list \<Rightarrow> string \<Rightarrow> nat" where
  "regions_cstring cfg ps d = length (filter (\<lambda>p. file_cstring cfg p = Some d) ps)"

text \<open>
  The regions that the calls of \<^verbatim>\<open>analyseBinary\<close> in progress have not counted yet: what a
  call at a given block will still add to each map.
\<close>

fun text_todo :: "config \<Rightarrow> ab_pc \<Rightarrow> string option" where
  "text_todo cfg (AB_Open p) = file_text cfg p"
| "text_todo cfg (AB_Text f) = text_digest cfg f"
| "text_todo cfg (AB_Cstring f) = None"
| "text_todo cfg AB_Ret = None"

fun cstring_todo :: "config \<Rightarrow> ab_pc \<Rightarrow> string option" where
  "cstring_todo cfg (AB_Open p) = file_cstring cfg p"
| "cstring_todo cfg (AB_Text f) = (if text_fails f then None else cstring_digest cfg f)"
| "cstring_todo cfg (AB_Cstring f) = cstring_digest cfg f"
| "cstring_todo cfg AB_Ret = None"

fun w_pc :: "worker_pc \<Rightarrow> ab_pc" where
  "w_pc (W_Run pc) = pc"
| "w_pc W_Recv = AB_Ret"
| "w_pc W_Exit = AB_Ret"

fun f_pc :: "folder_pc \<Rightarrow> ab_pc" where
  "f_pc (F_Inline pc es) = pc"
| "f_pc _ = AB_Ret"

definition in_flight :: "state \<Rightarrow> ab_pc list" where
  "in_flight s = f_pc (folder s) # map w_pc (workers s)"

definition pending_text :: "config \<Rightarrow> state \<Rightarrow> string \<Rightarrow> nat" where
  "pending_text cfg s d = length (filter (\<lambda>pc. text_todo cfg pc = Some d) (in_flight s))"

definition pending_cstring :: "config \<Rightarrow> state \<Rightarrow> string \<Rightarrow> nat" where
  "pending_cstring cfg s d =
     length (filter (\<lambda>pc. cstring_todo cfg pc = Some d) (in_flight s))"

text \<open>\<^verbatim>\<open>analyseFolder\<close> has reached its own call of \<^verbatim>\<open>showResults\<close> (line 223).\<close>

definition completed :: "state \<Rightarrow> bool" where
  "completed s = (folder s = F_Show \<or> folder s = F_Done \<or> folder s = F_Ret)"


text \<open>The walker is blocked in \<^verbatim>\<open>tasks <- path\<close>.\<close>

fun sending :: "folder_pc \<Rightarrow> bool" where
  "sending (F_Send p es) = True"
| "sending _ = False"


text \<open>The walker analyses a file itself.\<close>

fun inlining :: "folder_pc \<Rightarrow> bool" where
  "inlining (F_Call p es) = True"
| "inlining (F_Inline pc es) = True"
| "inlining _ = False"

text \<open>A worker is inside \<^verbatim>\<open>analyseBinary\<close> or about to call \<^verbatim>\<open>bar.Add\<close>.\<close>

fun running :: "worker_pc \<Rightarrow> bool" where
  "running (W_Run pc) = True"
| "running _ = False"

fun is_report :: "event \<Rightarrow> bool" where
  "is_report (Report c k) = True"
| "is_report _ = False"

definition reports :: "state \<Rightarrow> nat" where
  "reports s = length (filter is_report (out s))"

section \<open>Properties that every reachable state has\<close>

text \<open>
  The paths still to be handed to \<^verbatim>\<open>analyseBinary\<close> by a walk that is not stopped, read off
  the position of \<^verbatim>\<open>analyseFolder\<close>.
\<close>

fun todo :: "config \<Rightarrow> folder_pc \<Rightarrow> string list option" where
  "todo cfg F_None = Some (candidates (scan_tree cfg))"
| "todo cfg F_Count = Some (candidates (scan_tree cfg))"
| "todo cfg F_Pool = Some (candidates (scan_tree cfg))"
| "todo cfg (F_Walk es) = Some (candidates es)"
| "todo cfg (F_Send p es) = Some (p # candidates es)"
| "todo cfg (F_Call p es) = Some (p # candidates es)"
| "todo cfg (F_Inline pc es) = Some (candidates es)"
| "todo cfg (F_Walked None) = Some []"
| "todo cfg (F_Walked (Some err)) = None"
| "todo cfg F_JobWait = Some []"
| "todo cfg F_Show = Some []"
| "todo cfg F_Done = Some []"
| "todo cfg F_Ret = Some []"
| "todo cfg F_Stopped = None"

definition inv_todo :: "config \<Rightarrow> state \<Rightarrow> bool" where
  "inv_todo cfg s =
     (prefix (invoked s) (candidates (scan_tree cfg)) \<and>
      (\<forall>r. todo cfg (folder s) = Some r \<longrightarrow> candidates (scan_tree cfg) = invoked s @ r))"

definition before_pool :: "folder_pc \<Rightarrow> bool" where
  "before_pool f = (f = F_None \<or> f = F_Count \<or> f = F_Pool)"

definition after_close :: "folder_pc \<Rightarrow> bool" where
  "after_close f = (f = F_JobWait \<or> f = F_Show \<or> f = F_Done \<or> f = F_Ret \<or> f = F_Stopped)"

definition inv_struct :: "config \<Rightarrow> state \<Rightarrow> bool" where
  "inv_struct cfg s =
     ((main_thread s \<noteq> M_Wait \<longrightarrow> folder s = F_None) \<and>
      (before_pool (folder s) \<longrightarrow>
         workers s = [] \<and> \<not> tasks_closed s \<and> invoked s = []) \<and>
      jobGroup s = int (length (filter (\<lambda>w. w \<noteq> W_Exit) (workers s))) \<and>
      (tasks_closed s \<longrightarrow> after_close (folder s)) \<and>
      (\<not> 1 < jobs cfg \<longrightarrow> workers s = [] \<and> \<not> sending (folder s)) \<and>
      (W_Exit \<in> set (workers s) \<longrightarrow> tasks_closed s) \<and>
      (1 < jobs cfg \<and> \<not> before_pool (folder s) \<longrightarrow> workers s \<noteq> []) \<and>
      (folder s = F_Stopped \<longrightarrow> tasks_closed s) \<and>
      (1 < jobs cfg \<longrightarrow> \<not> inlining (folder s)) \<and>
      exit_status s \<noteq> Some 2)"

definition inv_exit :: "config \<Rightarrow> state \<Rightarrow> bool" where
  "inv_exit cfg s =
     ((main_thread s = M_Wait \<longrightarrow> input cfg \<noteq> []) \<and>
      (main_thread s \<noteq> M_Wait \<longrightarrow> mainGroup s = 0) \<and>
      (main_thread s = M_Wait \<longrightarrow> mainGroup s = (if folder s = F_Ret then 0 else 1)) \<and>
      (exit_status s = Some 1 \<longrightarrow> input cfg = [] \<and> main_thread s = M_Check) \<and>
      (exit_status s = Some 0 \<longrightarrow>
         handler s = H_Exit \<or> (main_thread s = M_Wait \<and> folder s = F_Ret)) \<and>
      (\<forall>c. exit_status s = Some c \<longrightarrow> c = 0 \<or> c = 1 \<or> c = 2))"

definition inv_handler :: "state \<Rightarrow> bool" where
  "inv_handler s =
     ((main_thread s = M_Setup \<longrightarrow> handler s = H_None) \<and>
      (interrupted s \<longleftrightarrow> handler s = H_JobWait \<or> handler s = H_Show \<or> handler s = H_Exit) \<and>
      (handler s = H_Show \<or> handler s = H_Exit \<longrightarrow>
         (\<forall>w \<in> set (workers s). \<not> running w) \<and> \<not> sending (folder s)))"

definition inv_done :: "config \<Rightarrow> state \<Rightarrow> bool" where
  "inv_done cfg s = (completed s \<longrightarrow> (\<forall>w \<in> set (workers s). w = W_Exit))"

definition inv_pos :: "state \<Rightarrow> bool" where
  "inv_pos s =
     ((\<forall>d c. codeHashes s d = Some c \<longrightarrow> 0 < c) \<and>
      (\<forall>d c. cstringHashes s d = Some c \<longrightarrow> 0 < c))"

definition inv_text :: "config \<Rightarrow> state \<Rightarrow> bool" where
  "inv_text cfg s =
     (\<forall>d. count_of (codeHashes s) d + int (pending_text cfg s d)
             = int (regions_text cfg (invoked s) d))"

definition inv_cstring :: "config \<Rightarrow> state \<Rightarrow> bool" where
  "inv_cstring cfg s =
     (\<forall>d. count_of (cstringHashes s) d + int (pending_cstring cfg s d)
             = int (regions_cstring cfg (invoked s) d))"


text \<open>No signal has been handled: the handler is not started or waits on its channel.\<close>

definition quiet :: "state \<Rightarrow> bool" where
  "quiet s = (handler s = H_None \<or> handler s = H_Wait)"







section \<open>A small corpus\<close>

text \<open>
  A tree with a directory, four files of the fingerprint size, a smaller file and an entry
  that cannot be read. File a has both sections, the \<^verbatim>\<open>__cstring\<close> section of file b and
  the \<^verbatim>\<open>__text\<close> section of file d cannot be read, and file c is not a Mach-O file. The
  identity stands for the hash function.
\<close>

definition text_ok :: msection where
  "text_ok = \<lparr>s_name = ''__text'', s_size = 2, s_read = Some [1, 2]\<rparr>"

definition text_bad :: msection where
  "text_bad = \<lparr>s_name = ''__text'', s_size = 2, s_read = None\<rparr>"

definition cstring_ok :: msection where
  "cstring_ok = \<lparr>s_name = ''__cstring'', s_size = 1, s_read = Some [3]\<rparr>"

definition cstring_bad :: msection where
  "cstring_bad = \<lparr>s_name = ''__cstring'', s_size = 1, s_read = None\<rparr>"

definition demo_files :: "string \<Rightarrow> opened" where
  "demo_files p =
     (if p = ''a'' then MachO [text_ok, cstring_ok]
      else if p = ''b'' then MachO [text_ok, cstring_bad]
      else if p = ''c'' then NotMachO
      else if p = ''d'' then MachO [text_bad, cstring_ok]
      else OpenError ''no such file'')"

definition unreadable :: entry where
  "unreadable = \<lparr>e_path = ''x'', e_err = True, e_regular = False, e_size = 0\<rparr>"

definition sample :: "string \<Rightarrow> entry" where
  "sample p = \<lparr>e_path = p, e_err = False, e_regular = True, e_size = 172792\<rparr>"

definition demo_tree :: "entry list" where
  "demo_tree =
     [\<lparr>e_path = ''dir'', e_err = False, e_regular = False, e_size = 4096\<rparr>,
      sample ''a'', unreadable, sample ''b'',
      \<lparr>e_path = ''small'', e_err = False, e_regular = True, e_size = 10\<rparr>,
      sample ''c'', sample ''d'']"

definition demo :: config where
  "demo = \<lparr>input = ''dir'', jobs = 2, count_tree = demo_tree, scan_tree = demo_tree,
            files = demo_files, sha256_Sum = (\<lambda>buf. buf)\<rparr>"


definition inline_sched :: "thread list" where
  "inline_sched =
     [TMain, TMain, TFolder, TFolder, TFolder, TFolder, TFolder, TFolder, TFolder, TFolder,
      TFolder, TFolder, TFolder, TFolder, TFolder, TFolder, TFolder, TFolder, TFolder,
      TFolder, TFolder, TFolder, TFolder, TFolder, TFolder, TFolder, TFolder, TFolder,
      TFolder, TFolder, TFolder, TFolder, TMain]"

text \<open>The pool run again, with the goroutines in another order.\<close>

definition pool_sched2 :: "thread list" where
  "pool_sched2 =
     [TMain, TMain, TFolder, TFolder, TFolder, TFolder, TWorker 1, TWorker 1, TWorker 1,
      TWorker 1, TWorker 1, TFolder, TFolder, TWorker 1, TFolder, TFolder, TWorker 0,
      TFolder, TWorker 0, TWorker 0, TWorker 0, TWorker 0, TWorker 0, TWorker 0,
      TWorker 1, TWorker 1, TWorker 1, TWorker 1, TFolder, TFolder, TWorker 1, TWorker 0,
      TFolder, TFolder, TFolder, TMain]"

definition pool_final :: state where
  "pool_final =
     \<lparr>totalWork = 4, codeHashes = [''0102'' \<mapsto> 2], cstringHashes = [''03'' \<mapsto> 1],
      interrupted = False, jobGroup = 0, mainGroup = 0, tasks_closed = True, bar = 4,
      out = [Banner, CountingMsg, Report [''0102'' \<mapsto> 2] [''03'' \<mapsto> 1]],
      exit_status = Some 0, main_thread = M_Wait, folder = F_Ret, handler = H_Wait,
      workers = [W_Exit, W_Exit], invoked = [''a'', ''b'', ''c'', ''d'']\<rparr>"

definition inline_final :: state where
  "inline_final = pool_final\<lparr>tasks_closed := False, workers := []\<rparr>"

text \<open>
  Runs with a signal. The command line without \<^verbatim>\<open>-i\<close>: the run that ends at the
  check of the parameter, and the run in which a signal is handled before that check.
\<close>

definition no_input :: config where
  "no_input = demo\<lparr>input := []\<rparr>"

definition usage_sched :: "thread list" where
  "usage_sched = [TMain, TMain]"

definition usage_exit :: state where
  "usage_exit =
     init\<lparr>out := [Banner, UsageError], exit_status := Some 1, main_thread := M_Check,
          handler := H_Wait\<rparr>"

definition early_signal_sched :: "thread list" where
  "early_signal_sched = [TMain, THandler, THandler, THandler, THandler, THandler]"

definition early_exit :: state where
  "early_exit =
     init\<lparr>interrupted := True, out := [CtrlC, Report Map.empty Map.empty],
          exit_status := Some 0, main_thread := M_Check, handler := H_Exit\<rparr>"

text \<open>
  A pool of two workers: the signal arrives while the walker is blocked in the send of
  file a, after its check of \<^verbatim>\<open>interrupted\<close>.
\<close>

definition race_sched :: "thread list" where
  "race_sched = [TMain, TMain, TFolder, TFolder, TFolder, TFolder, THandler, THandler]"

definition race_state :: state where
  "race_state =
     init\<lparr>totalWork := 4, interrupted := True, jobGroup := 2, mainGroup := 1,
          out := [Banner, CountingMsg, CtrlC], main_thread := M_Wait,
          folder := F_Send ''a'' (drop 2 demo_tree), handler := H_JobWait,
          workers := [W_Recv, W_Recv]\<rparr>"

text \<open>
  The same pool: the signal arrives after worker 0 has taken file a. The walker sees the
  flag at file b, closes the channel and returns; the workers finish and the handler reports
  and exits.
\<close>

definition stop_sched :: "thread list" where
  "stop_sched =
     [TMain, TMain, TFolder, TFolder, TFolder, TFolder, TWorker 0, THandler, THandler,
      TFolder]"

definition seen_state :: state where
  "seen_state =
     race_state\<lparr>folder := F_Walk (drop 3 demo_tree),
                workers := [W_Run (AB_Open ''a''), W_Recv], invoked := [''a'']\<rparr>"

definition eof_state :: state where
  "eof_state = seen_state\<lparr>folder := F_Walked (Some io_EOF)\<rparr>"

definition stopped_state :: state where
  "stopped_state = eof_state\<lparr>tasks_closed := True, folder := F_Stopped\<rparr>"

definition drain_sched :: "thread list" where
  "drain_sched =
     [TFolder, TWorker 1, TWorker 0, TWorker 0, TWorker 0, TWorker 0, TWorker 0, THandler,
      THandler, THandler]"

definition drained_state :: state where
  "drained_state =
     stopped_state\<lparr>codeHashes := [''0102'' \<mapsto> 1], cstringHashes := [''03'' \<mapsto> 1],
                   jobGroup := 0, bar := 1,
                   out := [Banner, CountingMsg, CtrlC, Report [''0102'' \<mapsto> 1] [''03'' \<mapsto> 1]],
                   exit_status := Some 0, handler := H_Exit, workers := [W_Exit, W_Exit]\<rparr>"

text \<open>
  The pool run of above, with the signal arriving when the dispatch walk has ended and
  \<^verbatim>\<open>analyseFolder\<close> is about to print its report.
\<close>

definition twice_sched :: "thread list" where
  "twice_sched =
     [TMain, TMain, TFolder, TFolder, TFolder, TFolder, TWorker 0, TFolder, TFolder,
      TWorker 1, TWorker 0, TWorker 1, TWorker 1, TWorker 0, TWorker 0, TWorker 1,
      TWorker 0, TWorker 1, TFolder, TFolder, TWorker 1, TFolder, TWorker 0, TWorker 0,
      TWorker 0, TWorker 0, TWorker 1, TWorker 1, TFolder, TFolder, TWorker 0, TWorker 1,
      TFolder, THandler, THandler, THandler, TFolder, THandler, THandler]"

definition twice_state :: state where
  "twice_state =
     pool_final\<lparr>interrupted := True, mainGroup := 1,
                out := [Banner, CountingMsg, CtrlC,
                        Report [''0102'' \<mapsto> 2] [''03'' \<mapsto> 1],
                        Report [''0102'' \<mapsto> 2] [''03'' \<mapsto> 1]],
                folder := F_Done, handler := H_Exit\<rparr>"

text \<open>
  Parallelism 1: the signal arrives while the walker is inside \<^verbatim>\<open>analyseBinary\<close> on
  file a, between its two blocks.
\<close>

definition midfile_sched :: "thread list" where
  "midfile_sched =
     [TMain, TMain, TFolder, TFolder, TFolder, TFolder, TFolder, TFolder, TFolder,
      THandler, THandler, THandler, THandler, THandler]"

definition midfile_state :: state where
  "midfile_state =
     init\<lparr>totalWork := 4, codeHashes := [''0102'' \<mapsto> 1], interrupted := True,
          mainGroup := 1,
          out := [Banner, CountingMsg, CtrlC, Report [''0102'' \<mapsto> 1] Map.empty],
          exit_status := Some 0, main_thread := M_Wait,
          folder := F_Inline (AB_Cstring [text_ok, cstring_ok]) (drop 2 demo_tree),
          handler := H_Exit, invoked := [''a'']\<rparr>"


section \<open>The model is the program\<close>

lemma ab_step_fields [simp]:
  "totalWork (snd (ab_step cfg pc s)) = totalWork s"
  "interrupted (snd (ab_step cfg pc s)) = interrupted s"
  "jobGroup (snd (ab_step cfg pc s)) = jobGroup s"
  "mainGroup (snd (ab_step cfg pc s)) = mainGroup s"
  "tasks_closed (snd (ab_step cfg pc s)) = tasks_closed s"
  "bar (snd (ab_step cfg pc s)) = bar s"
  "exit_status (snd (ab_step cfg pc s)) = exit_status s"
  "main_thread (snd (ab_step cfg pc s)) = main_thread s"
  "folder (snd (ab_step cfg pc s)) = folder s"
  "handler (snd (ab_step cfg pc s)) = handler s"
  "workers (snd (ab_step cfg pc s)) = workers s"
  "invoked (snd (ab_step cfg pc s)) = invoked s"
  by (cases pc; simp split: opened.splits option.splits)+

lemma step_elim [consumes 1, case_names msetup musage mstart main_ret signal hset hwait hshow hexit
    count pool_start pool_none walk_end cb_nil cb_eof cb_send cb_inline call inline_ret inline_step
    stop close noclose fwait fshow fdone recv wexit wbar wstep]:
  assumes "step cfg t s = Some s'"
  obtains
    (msetup) "exit_status s = None" "t = TMain" "main_thread s = M_Setup"
      "s' = s\<lparr>handler := H_Wait, main_thread := M_Check\<rparr>"
  | (musage) "exit_status s = None" "t = TMain" "main_thread s = M_Check" "input cfg = []"
      "s' = s\<lparr>out := out s @ [Banner, UsageError], exit_status := Some 1\<rparr>"
  | (mstart) "exit_status s = None" "t = TMain" "main_thread s = M_Check" "input cfg \<noteq> []"
      "s' = s\<lparr>out := out s @ [Banner], mainGroup := mainGroup s + 1,
                folder := F_Count, main_thread := M_Wait\<rparr>"
  | (main_ret) "exit_status s = None" "t = TMain" "main_thread s = M_Wait" "mainGroup s = 0"
      "s' = s\<lparr>exit_status := Some 0\<rparr>"
  | (signal) "exit_status s = None" "t = THandler" "handler s = H_Wait"
      "s' = s\<lparr>out := out s @ [CtrlC], handler := H_Set\<rparr>"
  | (hset) "exit_status s = None" "t = THandler" "handler s = H_Set"
      "s' = s\<lparr>interrupted := True, handler := H_JobWait\<rparr>"
  | (hwait) "exit_status s = None" "t = THandler" "handler s = H_JobWait" "jobGroup s = 0"
      "s' = s\<lparr>handler := H_Show\<rparr>"
  | (hshow) "exit_status s = None" "t = THandler" "handler s = H_Show"
      "s' = (showResults s)\<lparr>handler := H_Exit\<rparr>"
  | (hexit) "exit_status s = None" "t = THandler" "handler s = H_Exit"
      "s' = s\<lparr>exit_status := Some 0\<rparr>"
  | (count) "exit_status s = None" "t = TFolder" "folder s = F_Count"
      "s' = s\<lparr>out := out s @ [CountingMsg],
                totalWork := fst (Walk_count (count_tree cfg) (totalWork s)),
                folder := F_Pool\<rparr>"
  | (pool_start) "exit_status s = None" "t = TFolder" "folder s = F_Pool" "jobs cfg > 1"
      "s' = s\<lparr>jobGroup := jobGroup s + jobs cfg,
                workers := replicate (nat (jobs cfg)) W_Recv,
                folder := F_Walk (scan_tree cfg)\<rparr>"
  | (pool_none) "exit_status s = None" "t = TFolder" "folder s = F_Pool" "\<not> jobs cfg > 1"
      "s' = s\<lparr>folder := F_Walk (scan_tree cfg)\<rparr>"
  | (walk_end) "exit_status s = None" "t = TFolder" "folder s = F_Walk []"
      "s' = s\<lparr>folder := F_Walked None\<rparr>"
  | (cb_nil) e es where "exit_status s = None" "t = TFolder" "folder s = F_Walk (e # es)"
      "dispatch_cb (interrupted s) (jobs cfg) e = Return None"
      "s' = s\<lparr>folder := F_Walk es\<rparr>"
  | (cb_eof) e es err where "exit_status s = None" "t = TFolder" "folder s = F_Walk (e # es)"
      "dispatch_cb (interrupted s) (jobs cfg) e = Return (Some err)"
      "s' = s\<lparr>folder := F_Walked (Some err)\<rparr>"
  | (cb_send) e es p where "exit_status s = None" "t = TFolder" "folder s = F_Walk (e # es)"
      "dispatch_cb (interrupted s) (jobs cfg) e = Send p"
      "s' = s\<lparr>folder := F_Send p es\<rparr>"
  | (cb_inline) e es p where "exit_status s = None" "t = TFolder" "folder s = F_Walk (e # es)"
      "dispatch_cb (interrupted s) (jobs cfg) e = Inline p"
      "s' = s\<lparr>folder := F_Call p es\<rparr>"
  | (call) p es where "exit_status s = None" "t = TFolder" "folder s = F_Call p es"
      "s' = s\<lparr>folder := F_Inline (AB_Open p) es, invoked := invoked s @ [p]\<rparr>"
  | (inline_ret) es where "exit_status s = None" "t = TFolder" "folder s = F_Inline AB_Ret es"
      "s' = s\<lparr>bar := bar s + 1, folder := F_Walk es\<rparr>"
  | (inline_step) pc es where "exit_status s = None" "t = TFolder" "folder s = F_Inline pc es"
      "pc \<noteq> AB_Ret"
      "s' = (snd (ab_step cfg pc s))\<lparr>folder := F_Inline (fst (ab_step cfg pc s)) es\<rparr>"
  | (stop) "exit_status s = None" "t = TFolder" "folder s = F_Walked (Some io_EOF)"
      "s' = (close_tasks s)\<lparr>folder := F_Stopped\<rparr>"
  | (close) "exit_status s = None" "t = TFolder" "folder s = F_Walked None" "jobs cfg > 1"
      "s' = (close_tasks s)\<lparr>folder := F_JobWait\<rparr>"
  | (noclose) "exit_status s = None" "t = TFolder" "folder s = F_Walked None" "\<not> jobs cfg > 1"
      "s' = s\<lparr>folder := F_Show\<rparr>"
  | (fwait) "exit_status s = None" "t = TFolder" "folder s = F_JobWait" "jobGroup s = 0"
      "s' = s\<lparr>folder := F_Show\<rparr>"
  | (fshow) "exit_status s = None" "t = TFolder" "folder s = F_Show"
      "s' = (showResults s)\<lparr>folder := F_Done\<rparr>"
  | (fdone) "exit_status s = None" "t = TFolder" "folder s = F_Done"
      "s' = s\<lparr>mainGroup := mainGroup s - 1, folder := F_Ret\<rparr>"
  | (recv) i p es where "exit_status s = None" "t = TWorker i" "i < length (workers s)"
      "workers s ! i = W_Recv" "folder s = F_Send p es"
      "s' = s\<lparr>folder := F_Walk es, workers := (workers s)[i := W_Run (AB_Open p)],
                invoked := invoked s @ [p]\<rparr>"
  | (wexit) i where "exit_status s = None" "t = TWorker i" "i < length (workers s)"
      "workers s ! i = W_Recv" "\<forall>p es. folder s \<noteq> F_Send p es" "tasks_closed s"
      "s' = (jobGroup_Done s)\<lparr>workers := (workers s)[i := W_Exit]\<rparr>"
  | (wbar) i where "exit_status s = None" "t = TWorker i" "i < length (workers s)"
      "workers s ! i = W_Run AB_Ret"
      "s' = s\<lparr>bar := bar s + 1, workers := (workers s)[i := W_Recv]\<rparr>"
  | (wstep) i pc where "exit_status s = None" "t = TWorker i" "i < length (workers s)"
      "workers s ! i = W_Run pc" "pc \<noteq> AB_Ret"
      "s' = (snd (ab_step cfg pc s))\<lparr>workers := (workers s)[i := W_Run (fst (ab_step cfg pc s))]\<rparr>"
proof -
  from assms have ex: "exit_status s = None"
    by (simp add: step_def split: if_splits)
  show ?thesis
  proof (cases t)
    case TMain
    with assms ex have "main_step cfg s = Some s'" by (simp add: step_def)
    with TMain ex show ?thesis
      by (cases "main_thread s") (auto simp: main_step_def split: if_splits intro: msetup musage mstart main_ret)
  next
    case THandler
    with assms ex have "handler_step s = Some s'" by (simp add: step_def)
    with THandler ex show ?thesis
      by (cases "handler s") (auto simp: handler_step_def split: if_splits intro: signal hset hwait hshow hexit)
  next
    case TFolder
    with assms ex have fs: "folder_step cfg s = Some s'" by (simp add: step_def)
    show ?thesis
    proof (cases "folder s")
      case F_None with fs show ?thesis by (simp add: folder_step_def)
    next
      case F_Count with fs TFolder ex show ?thesis
        by (auto simp: folder_step_def intro: count)
    next
      case F_Pool with fs TFolder ex show ?thesis
        by (auto simp: folder_step_def split: if_splits intro: pool_start pool_none)
    next
      case (F_Walk es)
      show ?thesis
      proof (cases es)
        case Nil with F_Walk fs TFolder ex show ?thesis
          by (auto simp: folder_step_def intro: walk_end)
      next
        case (Cons e es')
        with F_Walk fs TFolder ex show ?thesis
          by (auto simp: folder_step_def split: cb_result.splits option.splits
              intro: cb_nil cb_eof cb_send cb_inline)
      qed
    next
      case (F_Send p es) with fs show ?thesis by (simp add: folder_step_def)
    next
      case (F_Call p es) with fs TFolder ex show ?thesis
        by (auto simp: folder_step_def intro: call)
    next
      case (F_Inline pc es)
      with fs TFolder ex show ?thesis
        by (cases pc) (auto simp: folder_step_def split: prod.splits intro: inline_ret inline_step)
    next
      case (F_Walked err)
      with fs TFolder ex show ?thesis
        by (cases err; cases "the err")
           (auto simp: folder_step_def split: if_splits intro: stop close noclose)
    next
      case F_JobWait with fs TFolder ex show ?thesis
        by (auto simp: folder_step_def split: if_splits intro: fwait)
    next
      case F_Show with fs TFolder ex show ?thesis
        by (auto simp: folder_step_def intro: fshow)
    next
      case F_Done with fs TFolder ex show ?thesis
        by (auto simp: folder_step_def intro: fdone)
    next
      case F_Ret with fs show ?thesis by (simp add: folder_step_def)
    next
      case F_Stopped with fs show ?thesis by (simp add: folder_step_def)
    qed
  next
    case (TWorker i)
    with assms ex have ws: "worker_step cfg i s = Some s'" by (simp add: step_def)
    then have len: "i < length (workers s)"
      by (simp add: worker_step_def split: if_splits)
    show ?thesis
    proof (cases "workers s ! i")
      case W_Recv
      show ?thesis
      proof (cases "\<exists>p es. folder s = F_Send p es")
        case True
        with W_Recv ws len TWorker ex show ?thesis
          by (auto simp: worker_step_def intro: recv)
      next
        case False
        with W_Recv ws len TWorker ex show ?thesis
          by (cases "folder s") (auto simp: worker_step_def split: if_splits intro: wexit)
      qed
    next
      case (W_Run pc)
      with ws len TWorker ex show ?thesis
        by (cases pc) (auto simp: worker_step_def split: prod.splits intro: wbar wstep)
    next
      case W_Exit with ws len show ?thesis by (simp add: worker_step_def)
    qed
  qed
qed

lemma ab_run_analyseBinary: "ab_run cfg 3 (AB_Open path) s = (AB_Ret, analyseBinary cfg path s)"
  by (simp add: numeral_3_eq_3 analyseBinary_def split: opened.splits option.splits)

section \<open>Invariants\<close>

lemma filter_update_length:
  "i < length xs \<Longrightarrow>
     length (filter P (xs[i := y])) + (if P (xs ! i) then 1 else 0)
       = length (filter P xs) + (if P y then 1 else 0)"
proof (induction xs arbitrary: i)
  case Nil
  then show ?case by simp
next
  case (Cons x xs)
  then show ?case by (cases i) auto
qed

lemma update_mem: "x \<in> set (xs[i := y]) \<Longrightarrow> x = y \<or> x \<in> set xs"
  using set_update_subset_insert [of xs i y] by auto

lemma nth_filter_pos: "i < length xs \<Longrightarrow> P (xs ! i) \<Longrightarrow> 0 < length (filter P xs)"
  by (metis filter_empty_conv length_greater_0_conv nth_mem)

lemma inv_struct_init: "inv_struct cfg init"
  by (simp add: inv_struct_def init_def before_pool_def)

lemma inv_struct_step:
  assumes "inv_struct cfg s" and "step cfg t s = Some s'"
  shows "inv_struct cfg s'"
  using assms(2)
proof (cases rule: step_elim)
  case (wexit i)
  from assms(1) have jg: "jobGroup s = int (length (filter (\<lambda>w. w \<noteq> W_Exit) (workers s)))"
    by (simp add: inv_struct_def)
  from wexit have pos: "0 < length (filter (\<lambda>w. w \<noteq> W_Exit) (workers s))"
    by (intro nth_filter_pos [of i]) auto
  from filter_update_length [of i "workers s" "\<lambda>w. w \<noteq> W_Exit" W_Exit] wexit
  have upd: "length (filter (\<lambda>w. w \<noteq> W_Exit) ((workers s)[i := W_Exit])) + 1
               = length (filter (\<lambda>w. w \<noteq> W_Exit) (workers s))"
    by simp
  from jg pos have np: "\<not> jobGroup s \<le> 0" by simp
  from assms(1) wexit np jg upd show ?thesis
    by (auto simp: inv_struct_def jobGroup_Done_def before_pool_def after_close_def)
next
  case (recv i p es)
  from filter_update_length [of i "workers s" "\<lambda>w. w \<noteq> W_Exit" "W_Run (AB_Open p)"] recv
  have upd: "length (filter (\<lambda>w. w \<noteq> W_Exit) ((workers s)[i := W_Run (AB_Open p)]))
               = length (filter (\<lambda>w. w \<noteq> W_Exit) (workers s))"
    by simp
  from assms(1) recv upd show ?thesis
    by (auto simp: inv_struct_def before_pool_def after_close_def dest: update_mem)
next
  case (wbar i)
  from filter_update_length [of i "workers s" "\<lambda>w. w \<noteq> W_Exit" "W_Recv"] wbar
  have upd: "length (filter (\<lambda>w. w \<noteq> W_Exit) ((workers s)[i := W_Recv]))
               = length (filter (\<lambda>w. w \<noteq> W_Exit) (workers s))"
    by simp
  from assms(1) wbar upd show ?thesis
    by (auto simp: inv_struct_def before_pool_def after_close_def dest: update_mem)
next
  case (wstep i pc)
  from filter_update_length [of i "workers s" "\<lambda>w. w \<noteq> W_Exit" "W_Run (fst (ab_step cfg pc s))"] wstep
  have upd: "length (filter (\<lambda>w. w \<noteq> W_Exit) ((workers s)[i := W_Run (fst (ab_step cfg pc s))]))
               = length (filter (\<lambda>w. w \<noteq> W_Exit) (workers s))"
    by simp
  from assms(1) wstep upd show ?thesis
    by (auto simp: inv_struct_def before_pool_def after_close_def dest: update_mem)
next
  case pool_start
  with assms(1) show ?thesis
    by (auto simp: inv_struct_def before_pool_def after_close_def)
next
  case (cb_send e es p)
  with assms(1) show ?thesis
    by (auto simp: inv_struct_def before_pool_def after_close_def dispatch_cb_def split: if_splits)
next
  case (cb_inline e es p)
  with assms(1) show ?thesis
    by (auto simp: inv_struct_def before_pool_def after_close_def dispatch_cb_def split: if_splits)
next
  case stop
  with assms(1) show ?thesis
    by (auto simp: inv_struct_def before_pool_def after_close_def close_tasks_def)
next
  case close
  with assms(1) show ?thesis
    by (auto simp: inv_struct_def before_pool_def after_close_def close_tasks_def)
qed (use assms(1) in \<open>auto simp: inv_struct_def before_pool_def after_close_def showResults_def\<close>)

lemma inv_todo_init: "inv_todo cfg init"
  by (simp add: inv_todo_def init_def)

lemma inv_todo_step:
  assumes "inv_todo cfg s" and "inv_struct cfg s" and "step cfg t s = Some s'"
  shows "inv_todo cfg s'"
  using assms(3)
proof (cases rule: step_elim)
  case mstart
  with assms(1,2) show ?thesis
    by (auto simp: inv_todo_def inv_struct_def)
next
  case (cb_nil e es)
  with assms(1) show ?thesis
    by (auto simp: inv_todo_def candidates_def dispatch_cb_def split: if_splits)
next
  case (cb_send e es p)
  with assms(1) show ?thesis
    by (auto simp: inv_todo_def candidates_def dispatch_cb_def split: if_splits)
next
  case (cb_inline e es p)
  with assms(1) show ?thesis
    by (auto simp: inv_todo_def candidates_def dispatch_cb_def split: if_splits)
qed (use assms(1) in \<open>auto simp: inv_todo_def candidates_def showResults_def
       close_tasks_def jobGroup_Done_def panic_def\<close>)

lemma count_of_incr: "count_of (incr m k) d = count_of m d + (if d = k then 1 else 0)"
  by (simp add: incr_def count_of_def)

lemma ab_step_text:
  "count_of (codeHashes (snd (ab_step cfg pc s))) d
     + (if text_todo cfg (fst (ab_step cfg pc s)) = Some d then 1 else 0)
   = count_of (codeHashes s) d + (if text_todo cfg pc = Some d then 1 else 0)"
  by (cases pc)
     (auto simp: count_of_incr text_digest_def file_text_def
           split: opened.splits option.splits)

lemma ab_step_cstring:
  "count_of (cstringHashes (snd (ab_step cfg pc s))) d
     + (if cstring_todo cfg (fst (ab_step cfg pc s)) = Some d then 1 else 0)
   = count_of (cstringHashes s) d + (if cstring_todo cfg pc = Some d then 1 else 0)"
  by (cases pc)
     (auto simp: count_of_incr cstring_digest_def file_cstring_def text_fails_def
           split: opened.splits option.splits)

lemma in_flight_worker:
  "in_flight (s\<lparr>workers := (workers s)[i := w]\<rparr>) = (in_flight s)[Suc i := w_pc w]"
  by (simp add: in_flight_def map_update)

lemma flight_update:
  assumes "k < length (in_flight s)" and "in_flight s' = (in_flight s)[k := pc']"
  shows "int (length (filter Q (in_flight s'))) + (if Q (in_flight s ! k) then 1 else 0)
           = int (length (filter Q (in_flight s))) + (if Q pc' then 1 else 0)"
  using filter_update_length [OF assms(1), of Q pc'] assms(2) by auto

lemma inv_text_init: "inv_text cfg init"
  by (simp add: inv_text_def init_def pending_text_def in_flight_def regions_text_def count_of_def)

lemma in_flight_length: "length (in_flight s) = Suc (length (workers s))"
  by (simp add: in_flight_def)

lemma in_flight_nth:
  "in_flight s ! 0 = f_pc (folder s)"
  "i < length (workers s) \<Longrightarrow> in_flight s ! Suc i = w_pc (workers s ! i)"
  by (simp_all add: in_flight_def)

lemma inv_text_step:
  assumes "inv_text cfg s" and "inv_struct cfg s" and "step cfg t s = Some s'"
  shows "inv_text cfg s'"
  unfolding inv_text_def
proof
  fix d
  let ?Q = "\<lambda>pc. text_todo cfg pc = Some d"
  from assms(1) have I: "count_of (codeHashes s) d + int (pending_text cfg s d)
             = int (regions_text cfg (invoked s) d)"
    by (simp add: inv_text_def)
  from assms(3) show "count_of (codeHashes s') d + int (pending_text cfg s' d)
             = int (regions_text cfg (invoked s') d)"
  proof (cases rule: step_elim)
    case mstart
    with I assms(2) show ?thesis
      by (auto simp: inv_struct_def pending_text_def in_flight_def)
  next
    case pool_start
    with I assms(2) show ?thesis
      by (auto simp: inv_struct_def before_pool_def pending_text_def in_flight_def)
  next
    case (call p es)
    then have F: "in_flight s' = (in_flight s)[0 := AB_Open p]"
      by (simp add: in_flight_def)
    from call have K: "in_flight s ! 0 = AB_Ret" by (simp add: in_flight_nth)
    from flight_update [OF _ F, of ?Q] K call I show ?thesis
      by (simp add: pending_text_def regions_text_def in_flight_length)
  next
    case (inline_ret es)
    then have F: "in_flight s' = in_flight s"
      by (simp add: in_flight_def)
    with inline_ret I show ?thesis
      by (simp add: pending_text_def)
  next
    case (inline_step pc es)
    then have F: "in_flight s' = (in_flight s)[0 := fst (ab_step cfg pc s)]"
      by (simp add: in_flight_def)
    from inline_step have K: "in_flight s ! 0 = pc" by (simp add: in_flight_nth)
    from flight_update [OF _ F, of ?Q] K inline_step I ab_step_text [of cfg pc s d]
    show ?thesis
      by (simp add: pending_text_def in_flight_length)
  next
    case (recv i p es)
    then have F: "in_flight s' = (in_flight s)[Suc i := AB_Open p]"
      by (simp add: in_flight_def map_update)
    from recv have K: "in_flight s ! Suc i = AB_Ret" by (simp add: in_flight_nth)
    from flight_update [OF _ F, of ?Q] K recv I show ?thesis
      by (simp add: pending_text_def regions_text_def in_flight_length)
  next
    case (wexit i)
    then have F: "in_flight s' = (in_flight s)[Suc i := AB_Ret]"
      by (simp add: in_flight_def map_update jobGroup_Done_def panic_def)
    from wexit have K: "in_flight s ! Suc i = AB_Ret" by (simp add: in_flight_nth)
    from flight_update [OF _ F, of ?Q] K wexit I show ?thesis
      by (simp add: pending_text_def in_flight_length jobGroup_Done_def panic_def)
  next
    case (wbar i)
    then have F: "in_flight s' = (in_flight s)[Suc i := AB_Ret]"
      by (simp add: in_flight_def map_update)
    from wbar have K: "in_flight s ! Suc i = AB_Ret" by (simp add: in_flight_nth)
    from flight_update [OF _ F, of ?Q] K wbar I show ?thesis
      by (simp add: pending_text_def in_flight_length)
  next
    case (wstep i pc)
    then have F: "in_flight s' = (in_flight s)[Suc i := fst (ab_step cfg pc s)]"
      by (simp add: in_flight_def map_update)
    from wstep have K: "in_flight s ! Suc i = pc" by (simp add: in_flight_nth)
    from flight_update [OF _ F, of ?Q] K wstep I ab_step_text [of cfg pc s d]
    show ?thesis
      by (simp add: pending_text_def in_flight_length)
  qed (use I in \<open>auto simp: pending_text_def in_flight_def showResults_def close_tasks_def
         panic_def\<close>)
qed

lemma inv_cstring_init: "inv_cstring cfg init"
  by (simp add: inv_cstring_def init_def pending_cstring_def in_flight_def regions_cstring_def
      count_of_def)

lemma inv_cstring_step:
  assumes "inv_cstring cfg s" and "inv_struct cfg s" and "step cfg t s = Some s'"
  shows "inv_cstring cfg s'"
  unfolding inv_cstring_def
proof
  fix d
  let ?Q = "\<lambda>pc. cstring_todo cfg pc = Some d"
  from assms(1) have I: "count_of (cstringHashes s) d + int (pending_cstring cfg s d)
             = int (regions_cstring cfg (invoked s) d)"
    by (simp add: inv_cstring_def)
  from assms(3) show "count_of (cstringHashes s') d + int (pending_cstring cfg s' d)
             = int (regions_cstring cfg (invoked s') d)"
  proof (cases rule: step_elim)
    case mstart
    with I assms(2) show ?thesis
      by (auto simp: inv_struct_def pending_cstring_def in_flight_def)
  next
    case pool_start
    with I assms(2) show ?thesis
      by (auto simp: inv_struct_def before_pool_def pending_cstring_def in_flight_def)
  next
    case (call p es)
    then have F: "in_flight s' = (in_flight s)[0 := AB_Open p]"
      by (simp add: in_flight_def)
    from call have K: "in_flight s ! 0 = AB_Ret" by (simp add: in_flight_nth)
    from flight_update [OF _ F, of ?Q] K call I show ?thesis
      by (simp add: pending_cstring_def regions_cstring_def in_flight_length)
  next
    case (inline_ret es)
    then have F: "in_flight s' = in_flight s"
      by (simp add: in_flight_def)
    with inline_ret I show ?thesis
      by (simp add: pending_cstring_def)
  next
    case (inline_step pc es)
    then have F: "in_flight s' = (in_flight s)[0 := fst (ab_step cfg pc s)]"
      by (simp add: in_flight_def)
    from inline_step have K: "in_flight s ! 0 = pc" by (simp add: in_flight_nth)
    from flight_update [OF _ F, of ?Q] K inline_step I ab_step_cstring [of cfg pc s d]
    show ?thesis
      by (simp add: pending_cstring_def in_flight_length)
  next
    case (recv i p es)
    then have F: "in_flight s' = (in_flight s)[Suc i := AB_Open p]"
      by (simp add: in_flight_def map_update)
    from recv have K: "in_flight s ! Suc i = AB_Ret" by (simp add: in_flight_nth)
    from flight_update [OF _ F, of ?Q] K recv I show ?thesis
      by (simp add: pending_cstring_def regions_cstring_def in_flight_length)
  next
    case (wexit i)
    then have F: "in_flight s' = (in_flight s)[Suc i := AB_Ret]"
      by (simp add: in_flight_def map_update jobGroup_Done_def panic_def)
    from wexit have K: "in_flight s ! Suc i = AB_Ret" by (simp add: in_flight_nth)
    from flight_update [OF _ F, of ?Q] K wexit I show ?thesis
      by (simp add: pending_cstring_def in_flight_length jobGroup_Done_def panic_def)
  next
    case (wbar i)
    then have F: "in_flight s' = (in_flight s)[Suc i := AB_Ret]"
      by (simp add: in_flight_def map_update)
    from wbar have K: "in_flight s ! Suc i = AB_Ret" by (simp add: in_flight_nth)
    from flight_update [OF _ F, of ?Q] K wbar I show ?thesis
      by (simp add: pending_cstring_def in_flight_length)
  next
    case (wstep i pc)
    then have F: "in_flight s' = (in_flight s)[Suc i := fst (ab_step cfg pc s)]"
      by (simp add: in_flight_def map_update)
    from wstep have K: "in_flight s ! Suc i = pc" by (simp add: in_flight_nth)
    from flight_update [OF _ F, of ?Q] K wstep I ab_step_cstring [of cfg pc s d]
    show ?thesis
      by (simp add: pending_cstring_def in_flight_length)
  qed (use I in \<open>auto simp: pending_cstring_def in_flight_def showResults_def close_tasks_def
         panic_def\<close>)
qed

lemma incr_pos:
  assumes "\<forall>d c. m d = Some c \<longrightarrow> 0 < c" and "incr m k d = Some c"
  shows "0 < c"
proof (cases "d = k")
  case False
  with assms show ?thesis by (simp add: incr_def)
next
  case True
  show ?thesis
  proof (cases "m k")
    case None
    with True assms(2) show ?thesis by (simp add: incr_def count_of_def)
  next
    case (Some a)
    with assms(1) have "0 < a" by blast
    with Some True assms(2) show ?thesis by (simp add: incr_def count_of_def)
  qed
qed

lemma ab_step_pos:
  assumes "inv_pos s"
  shows "inv_pos (snd (ab_step cfg pc s))"
proof (cases pc)
  case (AB_Open p)
  with assms show ?thesis
    by (auto simp: inv_pos_def split: opened.splits)
next
  case (AB_Text f)
  with assms show ?thesis
    by (auto simp: inv_pos_def split: option.splits dest: incr_pos)
next
  case (AB_Cstring f)
  with assms show ?thesis
    by (auto simp: inv_pos_def split: option.splits dest: incr_pos)
next
  case AB_Ret
  with assms show ?thesis by simp
qed

lemma inv_pos_fields:
  "codeHashes s' = codeHashes s \<Longrightarrow> cstringHashes s' = cstringHashes s \<Longrightarrow>
     inv_pos s \<Longrightarrow> inv_pos s'"
  by (simp add: inv_pos_def)

lemma inv_pos_init: "inv_pos init"
  by (simp add: inv_pos_def init_def)

lemma inv_pos_step:
  assumes "inv_pos s" and "step cfg t s = Some s'"
  shows "inv_pos s'"
  using assms(2)
proof (cases rule: step_elim)
  case (inline_step pc es)
  with ab_step_pos [OF assms(1), of cfg pc] show ?thesis
    by (simp add: inv_pos_def)
next
  case (wstep i pc)
  with ab_step_pos [OF assms(1), of cfg pc] show ?thesis
    by (simp add: inv_pos_def)
qed (use assms(1) in \<open>auto simp: inv_pos_def showResults_def close_tasks_def
       jobGroup_Done_def panic_def\<close>)

lemma all_exit:
  "length (filter (\<lambda>w. w \<noteq> W_Exit) ws) = 0 \<Longrightarrow> w \<in> set ws \<Longrightarrow> w = W_Exit"
  by (auto simp: filter_empty_conv)

lemma inv_done_init: "inv_done cfg init"
  by (simp add: inv_done_def init_def completed_def)

lemma inv_done_step:
  assumes "inv_done cfg s" and "inv_struct cfg s" and "step cfg t s = Some s'"
  shows "inv_done cfg s'"
  using assms(3)
proof (cases rule: step_elim)
  case fwait
  with assms(2) show ?thesis
    by (auto simp: inv_done_def inv_struct_def completed_def filter_empty_conv)
next
  case noclose
  with assms(2) show ?thesis
    by (auto simp: inv_done_def inv_struct_def completed_def)
next
  case (wexit i)
  with assms(1) show ?thesis
    by (auto simp: inv_done_def completed_def jobGroup_Done_def panic_def dest: update_mem)
next
  case (wbar i)
  with assms(1) nth_mem [of i "workers s"] show ?thesis
    by (auto simp: inv_done_def completed_def)
next
  case (wstep i pc)
  with assms(1) nth_mem [of i "workers s"] show ?thesis
    by (auto simp: inv_done_def completed_def)
qed (use assms(1) in \<open>auto simp: inv_done_def completed_def showResults_def close_tasks_def
       panic_def\<close>)

lemma inv_handler_init: "inv_handler init"
  by (simp add: inv_handler_def init_def)

lemma closed_not_sending:
  assumes "inv_struct cfg s" and "jobGroup s = 0"
  shows "\<not> sending (folder s)"
proof
  assume snd: "sending (folder s)"
  with assms(1) have j: "1 < jobs cfg" by (auto simp: inv_struct_def)
  from snd have nb: "\<not> before_pool (folder s)" by (auto simp: before_pool_def)
  with assms(1) j have "workers s \<noteq> []" by (simp add: inv_struct_def)
  then obtain w where w: "w \<in> set (workers s)" by (cases "workers s") auto
  from assms have "length (filter (\<lambda>w. w \<noteq> W_Exit) (workers s)) = 0"
    by (simp add: inv_struct_def)
  with w have "w = W_Exit" by (rule all_exit [rotated])
  with w assms(1) have "after_close (folder s)" by (auto simp: inv_struct_def)
  with snd show False by (auto simp: after_close_def)
qed

lemma inv_handler_step:
  assumes "inv_handler s" and "inv_struct cfg s" and "step cfg t s = Some s'"
  shows "inv_handler s'"
  using assms(3)
proof (cases rule: step_elim)
  case hwait
  from assms(2) hwait have "\<forall>w \<in> set (workers s). w = W_Exit"
    by (auto simp: inv_struct_def filter_empty_conv)
  then have "\<forall>w \<in> set (workers s). \<not> running w" by auto
  with hwait assms(1) closed_not_sending [OF assms(2)] show ?thesis
    by (auto simp: inv_handler_def)
next
  case (cb_send e es p)
  with assms(1) show ?thesis
    by (auto simp: inv_handler_def dispatch_cb_def split: if_splits)
next
  case (recv i p es)
  with assms(1) show ?thesis
    by (auto simp: inv_handler_def dest: update_mem)
next
  case (wexit i)
  with assms(1) show ?thesis
    by (auto simp: inv_handler_def jobGroup_Done_def panic_def dest: update_mem)
next
  case (wbar i)
  with assms(1) show ?thesis
    by (auto simp: inv_handler_def dest: update_mem)
next
  case (wstep i pc)
  with assms(1) nth_mem [of i "workers s"] show ?thesis
    by (auto simp: inv_handler_def dest: update_mem)
qed (use assms(1) in \<open>auto simp: inv_handler_def showResults_def close_tasks_def panic_def\<close>)

lemma inv_exit_init: "inv_exit cfg init"
  by (simp add: inv_exit_def init_def)

lemma inv_exit_step:
  assumes "inv_exit cfg s" and "inv_struct cfg s" and "step cfg t s = Some s'"
  shows "inv_exit cfg s'"
  using assms(3)
proof (cases rule: step_elim)
  case mstart
  with assms(1,2) show ?thesis
    by (auto simp: inv_exit_def inv_struct_def)
next
  case fdone
  with assms(1,2) show ?thesis
    by (auto simp: inv_exit_def inv_struct_def)
qed (use assms(1) in \<open>auto simp: inv_exit_def showResults_def close_tasks_def panic_def
       jobGroup_Done_def\<close>)

lemma reachable_inv:
  assumes "reachable cfg s"
  shows "inv_struct cfg s \<and> inv_todo cfg s \<and> inv_text cfg s \<and> inv_cstring cfg s \<and>
         inv_pos s \<and> inv_done cfg s \<and> inv_handler s \<and> inv_exit cfg s"
  using assms
proof (induction rule: reachable.induct)
  case reach_init
  show ?case
    by (simp add: inv_struct_init inv_todo_init inv_text_init inv_cstring_init inv_pos_init
        inv_done_init inv_handler_init inv_exit_init)
next
  case (reach_step s t s')
  then show ?case
    by (blast intro: inv_struct_step inv_todo_step inv_text_step inv_cstring_step inv_pos_step
        inv_done_step inv_handler_step inv_exit_step)
qed

lemma run_reachable: "reachable cfg s \<Longrightarrow> run cfg sched s = Some s' \<Longrightarrow> reachable cfg s'"
proof (induction sched arbitrary: s)
  case Nil
  then show ?case by simp
next
  case (Cons t ts)
  then show ?case
    by (auto split: option.splits intro: reach_step)
qed

lemma run_init_reachable: "run cfg sched init = Some s \<Longrightarrow> reachable cfg s"
  by (rule run_reachable [OF reach_init])








lemma get_sha256_jobs [simp]: "get_sha256 (cfg\<lparr>jobs := n\<rparr>) = get_sha256 cfg"
  by (simp add: fun_eq_iff get_sha256_def)

lemma files_jobs [simp]:
  "file_text (cfg\<lparr>jobs := n\<rparr>) = file_text cfg"
  "file_cstring (cfg\<lparr>jobs := n\<rparr>) = file_cstring cfg"
  by (auto simp: fun_eq_iff file_text_def file_cstring_def text_digest_def cstring_digest_def
      split: opened.splits option.splits)



section \<open>Every run ends\<close>






lemma ab_step_exit [simp]: "exit_status (snd (ab_step cfg pc s)) = exit_status s"
  by simp
















section \<open>The runs on the small corpus\<close>

lemma demo_simps [simp]:
  "input demo = ''dir''" "jobs demo = 2" "count_tree demo = demo_tree"
  "scan_tree demo = demo_tree" "files demo = demo_files" "sha256_Sum demo = (\<lambda>buf. buf)"
  by (simp_all add: demo_def)

lemmas ev = step_def main_step_def folder_step_def worker_step_def handler_step_def
  dispatch_cb_def candidate_def fileSize_def demo_tree_def sample_def unreadable_def
  demo_files_def Section_def Read_def text_ok_def text_bad_def cstring_ok_def cstring_bad_def
  get_sha256_def hextable_def incr_def count_of_def showResults_def close_tasks_def
  jobGroup_Done_def panic_def init_def count_cb_def

lemma replicate_two: "replicate 2 x = [x, x]"
  by (simp add: numeral_2_eq_2)


lemma inline_run: "run (demo\<lparr>jobs := 1\<rparr>) inline_sched init = Some inline_final"
  by (simp add: inline_sched_def inline_final_def pool_final_def ev)

lemma pool_run2: "run demo pool_sched2 init = Some pool_final"
  by (simp add: pool_sched2_def pool_final_def replicate_two ev)

lemma demo_jobs [simp]: "demo\<lparr>jobs := 2\<rparr> = demo"
  by (simp add: demo_def)

lemma completed_finals [simp]: "completed pool_final" "completed inline_final"
  by (simp_all add: completed_def pool_final_def inline_final_def)

lemma quiet_finals [simp]: "quiet pool_final" "quiet inline_final"
  by (simp_all add: quiet_def pool_final_def inline_final_def)

lemmas st = no_input_def usage_sched_def usage_exit_def early_signal_sched_def early_exit_def
  race_sched_def race_state_def stop_sched_def seen_state_def eof_state_def stopped_state_def
  drain_sched_def drained_state_def twice_sched_def twice_state_def midfile_sched_def
  midfile_state_def pool_final_def replicate_two










lemma twice_run: "run demo twice_sched init = Some twice_state"
  by (simp add: st ev)

lemma midfile_run: "run (demo\<lparr>jobs := 1\<rparr>) midfile_sched init = Some midfile_state"
  by (simp add: st ev)


section \<open>One file: analyseBinary\<close>

text \<open>
  Claim C4. A file of the fingerprint size that \<^verbatim>\<open>macho.NewFile\<close> does not parse leaves the
  whole state as it was: neither map changes and nothing is printed. That holds of the call
  as a whole and of its first block, after which the call has returned; and the file has no
  region in the count of the whole run.
\<close>

theorem C4_unparseable_file_changes_nothing:
  "files cfg path = NotMachO \<Longrightarrow>
     analyseBinary cfg path s = s \<and>
     ab_step cfg (AB_Open path) s = (AB_Ret, s) \<and>
     file_text cfg path = None \<and> file_cstring cfg path = None"
  by (simp add: analyseBinary_def file_text_def file_cstring_def)

theorem C4_witness:
  "files demo ''c'' = NotMachO \<and> analyseBinary demo ''c'' init = init \<and>
   ab_step demo (AB_Open ''c'') init = (AB_Ret, init) \<and>
   file_text demo ''c'' = None \<and> file_cstring demo ''c'' = None"
  using C4_unparseable_file_changes_nothing [of demo "''c''" init]
  by (simp add: demo_files_def)

text \<open>
  Claim C9. The two categories of one file are not handled atomically. When the
  \<^verbatim>\<open>__text\<close> section is there and reading it fails, \<^verbatim>\<open>analyseBinary\<close> returns before it looks
  at \<^verbatim>\<open>__cstring\<close> and the state is unchanged. When the \<^verbatim>\<open>__text\<close> digest has been counted
  and reading \<^verbatim>\<open>__cstring\<close> fails, the result is the state with the \<^verbatim>\<open>__text\<close> increment
  and nothing else: the \<^verbatim>\<open>__cstring\<close> block returns with the state as it found it.
\<close>

theorem C9_categories_not_atomic:
  "(files cfg p1 = MachO f1 \<and> Section f1 ''__text'' = Some t1 \<and> Read t1 = None \<longrightarrow>
      analyseBinary cfg p1 s = s \<and> ab_step cfg (AB_Text f1) s = (AB_Ret, s)) \<and>
   (files cfg p2 = MachO f2 \<and> Section f2 ''__text'' = Some t2 \<and> Read t2 = Some b \<and>
    Section f2 ''__cstring'' = Some c2 \<and> Read c2 = None \<longrightarrow>
      analyseBinary cfg p2 s = s\<lparr>codeHashes := incr (codeHashes s) (get_sha256 cfg b)\<rparr> \<and>
      ab_step cfg (AB_Text f2) s
        = (AB_Cstring f2, s\<lparr>codeHashes := incr (codeHashes s) (get_sha256 cfg b)\<rparr>) \<and>
      ab_step cfg (AB_Cstring f2) s = (AB_Ret, s))"
  by (simp add: analyseBinary_def)

theorem C9_witness:
  "files demo ''d'' = MachO [text_bad, cstring_ok] \<and>
   Section [text_bad, cstring_ok] ''__text'' = Some text_bad \<and> Read text_bad = None \<and>
   analyseBinary demo ''d'' init = init \<and>
   ab_step demo (AB_Text [text_bad, cstring_ok]) init = (AB_Ret, init) \<and>
   files demo ''b'' = MachO [text_ok, cstring_bad] \<and>
   Section [text_ok, cstring_bad] ''__text'' = Some text_ok \<and> Read text_ok = Some [1, 2] \<and>
   Section [text_ok, cstring_bad] ''__cstring'' = Some cstring_bad \<and> Read cstring_bad = None \<and>
   analyseBinary demo ''b'' init =
     init\<lparr>codeHashes := incr (codeHashes init) (get_sha256 demo [1, 2])\<rparr> \<and>
   ab_step demo (AB_Text [text_ok, cstring_bad]) init
     = (AB_Cstring [text_ok, cstring_bad],
        init\<lparr>codeHashes := incr (codeHashes init) (get_sha256 demo [1, 2])\<rparr>) \<and>
   ab_step demo (AB_Cstring [text_ok, cstring_bad]) init = (AB_Ret, init)"
  using C9_categories_not_atomic [of demo "''d''" "[text_bad, cstring_ok]" text_bad init
               "''b''" "[text_ok, cstring_bad]" text_ok "[1, 2]" cstring_bad]
  by (simp add: demo_files_def Section_def Read_def text_ok_def text_bad_def
      cstring_ok_def cstring_bad_def)

section \<open>The two walks\<close>

lemma Walk_count_no_error: "snd (Walk_count es tw) = None"
  by (induction es arbitrary: tw) (auto simp: count_cb_def)

text \<open>
  Claim C8. On an entry that comes with a walk error both callbacks return nil without
  doing anything: the counting walk goes on with the rest of the entries and never returns
  an error, and the dispatch walk moves to the next entry with the state unchanged.
\<close>

theorem C8_walk_errors_skipped:
  "e_err e \<Longrightarrow>
     count_cb e tw = (tw, None) \<and>
     Walk_count (e # es) tw = Walk_count es tw \<and>
     snd (Walk_count (e # es) tw) = None \<and>
     dispatch_cb intr n e = Return None \<and>
     (exit_status s = None \<and> folder s = F_Walk (e # es) \<longrightarrow>
        step cfg TFolder s = Some (s\<lparr>folder := F_Walk es\<rparr>))"
  by (simp add: count_cb_def dispatch_cb_def step_def folder_step_def Walk_count_no_error)

theorem C8_witness:
  "e_err unreadable \<and>
   count_cb unreadable 3 = (3, None) \<and>
   Walk_count (unreadable # [sample ''a'']) 3 = Walk_count [sample ''a''] 3 \<and>
   snd (Walk_count (unreadable # [sample ''a'']) 3) = None \<and>
   dispatch_cb False 2 unreadable = Return None \<and>
   exit_status (init\<lparr>folder := F_Walk (unreadable # [sample ''a''])\<rparr>) = None \<and>
   folder (init\<lparr>folder := F_Walk (unreadable # [sample ''a''])\<rparr>)
     = F_Walk (unreadable # [sample ''a'']) \<and>
   step demo TFolder (init\<lparr>folder := F_Walk (unreadable # [sample ''a''])\<rparr>)
     = Some (init\<lparr>folder := F_Walk [sample ''a'']\<rparr>)"
  using C8_walk_errors_skipped [of unreadable 3 "[sample ''a'']" False 2
               "init\<lparr>folder := F_Walk (unreadable # [sample ''a''])\<rparr>" demo]
  by (simp add: unreadable_def init_def count_cb_def sample_def candidate_def fileSize_def
      dispatch_cb_def step_def folder_step_def)

section \<open>Whole runs\<close>







section \<open>Parallelism below two\<close>

lemma ab_step_jobs [simp]: "ab_step (cfg\<lparr>jobs := n\<rparr>) pc s = ab_step cfg pc s"
  by (cases pc) (auto split: opened.splits option.splits)

lemma folder_step_jobs:
  assumes "n \<le> 1"
  shows "folder_step (cfg\<lparr>jobs := n\<rparr>) s = folder_step (cfg\<lparr>jobs := 1\<rparr>) s"
proof (cases "folder s")
  case (F_Walk es)
  with assms show ?thesis
    by (cases es) (auto simp: folder_step_def dispatch_cb_def)
next
  case (F_Inline pc es)
  then show ?thesis
    by (cases pc) (auto simp: folder_step_def simp del: ab_step.simps)
next
  case (F_Walked err)
  with assms show ?thesis
    by (cases err) (auto simp: folder_step_def)
qed (use assms in \<open>auto simp: folder_step_def\<close>)

lemma worker_step_jobs:
  "worker_step (cfg\<lparr>jobs := n\<rparr>) i s = worker_step (cfg\<lparr>jobs := 1\<rparr>) i s"
proof (cases "i < length (workers s)")
  case True
  show ?thesis
  proof (cases "workers s ! i")
    case (W_Run pc)
    with True show ?thesis
      by (cases pc) (auto simp: worker_step_def simp del: ab_step.simps)
  qed (use True in \<open>auto simp: worker_step_def\<close>)
qed (simp add: worker_step_def)

lemma step_jobs:
  assumes "n \<le> 1"
  shows "step (cfg\<lparr>jobs := n\<rparr>) t s = step (cfg\<lparr>jobs := 1\<rparr>) t s"
  using folder_step_jobs [OF assms] worker_step_jobs
  by (cases t) (auto simp: step_def main_step_def)

lemma run_jobs:
  assumes "n \<le> 1"
  shows "run (cfg\<lparr>jobs := n\<rparr>) sched s = run (cfg\<lparr>jobs := 1\<rparr>) sched s"
  by (induction sched arbitrary: s) (auto simp: step_jobs [OF assms] split: option.splits)

text \<open>
  Claim C10. The program compares \<^verbatim>\<open>jobs\<close> with 1 only, and never checks it otherwise. For
  every \<open>n \<le> 1\<close>, zero and the negative numbers included, each goroutine takes the same step
  as with \<open>n = 1\<close> in every state, so every schedule gives the same run; and in every state
  of such a run there is no worker, the counter of \<^verbatim>\<open>jobGroup\<close> is zero and the walker is
  never blocked in a send: every candidate is analysed inline.
\<close>

theorem C10_no_pool_below_two:
  assumes "n \<le> 1"
  shows "step (cfg\<lparr>jobs := n\<rparr>) t s0 = step (cfg\<lparr>jobs := 1\<rparr>) t s0 \<and>
         run (cfg\<lparr>jobs := n\<rparr>) sched init = run (cfg\<lparr>jobs := 1\<rparr>) sched init \<and>
         (run (cfg\<lparr>jobs := n\<rparr>) sched init = Some s \<longrightarrow>
            workers s = [] \<and> jobGroup s = 0 \<and> \<not> sending (folder s))"
proof -
  have "workers s = [] \<and> jobGroup s = 0 \<and> \<not> sending (folder s)"
    if "run (cfg\<lparr>jobs := n\<rparr>) sched init = Some s"
  proof -
    from that have "reachable (cfg\<lparr>jobs := n\<rparr>) s" by (rule run_init_reachable)
    from reachable_inv [OF this] have "inv_struct (cfg\<lparr>jobs := n\<rparr>) s" by simp
    with assms show ?thesis by (auto simp: inv_struct_def)
  qed
  with step_jobs [OF assms] run_jobs [OF assms] show ?thesis by blast
qed

theorem C10_witness:
  "(- 3 :: int) \<le> 1 \<and>
   step (demo\<lparr>jobs := - 3\<rparr>) TFolder init = step (demo\<lparr>jobs := 1\<rparr>) TFolder init \<and>
   run (demo\<lparr>jobs := - 3\<rparr>) inline_sched init = run (demo\<lparr>jobs := 1\<rparr>) inline_sched init \<and>
   run (demo\<lparr>jobs := - 3\<rparr>) inline_sched init = Some inline_final \<and>
   workers inline_final = [] \<and> jobGroup inline_final = 0 \<and> \<not> sending (folder inline_final)"
proof -
  have le: "(- 3 :: int) \<le> 1" by simp
  from C10_no_pool_below_two [OF le, where cfg = demo and t = TFolder and ?s0.0 = init
      and sched = inline_sched and s = inline_final] inline_run
  show ?thesis by simp
qed

section \<open>Signals\<close>









text \<open>
  Claim C3 does not hold of the program. The handler and \<^verbatim>\<open>analyseFolder\<close> each call
  \<^verbatim>\<open>showResults\<close>; the walk is stopped, and \<^verbatim>\<open>analyseFolder\<close> kept from its report, only if
  the walker sees the flag. When the signal arrives after the last check of the flag, both
  print: the first run below ends with status 0 and two reports. With parallelism 1 the
  handler waits for nobody, \<^verbatim>\<open>jobGroup\<close> being used by the pool only: the second run ends
  with status 0 while the walker is inside \<^verbatim>\<open>analyseBinary\<close> for file a, after a report
  that has the \<^verbatim>\<open>__text\<close> digest of the file and not its \<^verbatim>\<open>__cstring\<close> digest.
\<close>

theorem C3_report_twice:
  "run demo twice_sched init = Some twice_state \<and> reports twice_state = 2 \<and>
   exit_status twice_state = Some 0 \<and>
   run (demo\<lparr>jobs := 1\<rparr>) midfile_sched init = Some midfile_state \<and>
   exit_status midfile_state = Some 0 \<and> reports midfile_state = 1 \<and>
   f_pc (folder midfile_state) = AB_Cstring [text_ok, cstring_ok] \<and>
   codeHashes midfile_state ''0102'' = Some 1 \<and> cstringHashes midfile_state ''03'' = None"
  by (simp add: twice_run midfile_run) (simp add: st reports_def init_def)




end
